theory Spec2Isabelle
  imports Main "HOL-Library.Word" "HOL-Library.AList"
begin

unbundle bit_operations_syntax

section \<open>JavaScript values used by the library\<close>

text \<open>
  A JavaScript string is a finite sequence of UTF-16 code units. Equality \<open>===\<close> on strings
  is equality of these sequences, and a string is truthy iff it is not empty.
\<close>

type_synonym jsstring = "16 word list"

text \<open>An ASCII literal of the source, as a JavaScript string.\<close>

definition str :: "string \<Rightarrow> jsstring" where
  "str s = map of_char s"

text \<open>Truthiness of an optional string property: \<open>undefined\<close> and \<open>""\<close> are falsy.\<close>

definition truthy :: "jsstring option \<Rightarrow> bool" where
  "truthy s = (case s of None \<Rightarrow> False | Some v \<Rightarrow> v \<noteq> [])"

text \<open>The test \<open>xs && xs.length > 0\<close> on an optional array property.\<close>

definition nonEmpty :: "'a list option \<Rightarrow> bool" where
  "nonEmpty xs = (case xs of None \<Rightarrow> False | Some l \<Rightarrow> 0 < length l)"

section \<open>Data model (core/types.ts)\<close>

record AccessControlConfig =
  feature :: "jsstring option"
  anyFeature :: "jsstring list option"
  allFeatures :: "jsstring list option"
  permission :: "jsstring option"
  anyPermission :: "jsstring list option"
  allPermissions :: "jsstring list option"
  requireBoth :: "bool option"

record UserPermissions =
  permissions :: "jsstring list"
  roles :: "jsstring list"
  userId :: "jsstring option"
  organizationId :: "jsstring option"

text \<open>The field \<open>id\<close> of the source is \<open>id_flag\<close> here (\<open>id\<close> is the identity function of HOL).\<close>

record FeatureFlag =
  id_flag :: jsstring
  name :: jsstring
  enabled :: bool
  description :: "jsstring option"
  category :: "jsstring option"
  requiresConfig :: "bool option"

text \<open>The object returned by \<open>evaluateAccessControl\<close>.\<close>

record AccessEvaluation =
  hasAccess :: bool
  hasFeatureAccess :: bool
  hasPermissionAccess :: bool
  hasFeatureCheck :: bool
  hasPermissionCheck :: bool

section \<open>The evaluator (core/utils.ts)\<close>

text \<open>
  \<open>Array.prototype.includes\<close> on strings is membership, \<open>some\<close> is \<open>list_ex\<close>,
  \<open>every\<close> is \<open>list_all\<close> and \<open>find\<close> returns the first element that satisfies the
  predicate.
\<close>

definition hasPermission :: "jsstring list \<Rightarrow> jsstring \<Rightarrow> bool" where
  "hasPermission userPerms perm = (perm \<in> set userPerms)"

definition hasAnyPermission :: "jsstring list \<Rightarrow> jsstring list \<Rightarrow> bool" where
  "hasAnyPermission userPerms perms = list_ex (\<lambda>perm. perm \<in> set userPerms) perms"

definition hasAllPermissions :: "jsstring list \<Rightarrow> jsstring list \<Rightarrow> bool" where
  "hasAllPermissions userPerms perms = list_all (\<lambda>perm. perm \<in> set userPerms) perms"

definition hasRole :: "jsstring list \<Rightarrow> jsstring \<Rightarrow> bool" where
  "hasRole userRoles role = (role \<in> set userRoles)"

definition hasFeature :: "FeatureFlag list \<Rightarrow> jsstring \<Rightarrow> bool" where
  "hasFeature featureFlags feat =
     (case List.find (\<lambda>f. id_flag f = feat \<or> name f = feat) featureFlags of
        None \<Rightarrow> False
      | Some flag \<Rightarrow> enabled flag)"

definition hasAnyFeature :: "FeatureFlag list \<Rightarrow> jsstring list \<Rightarrow> bool" where
  "hasAnyFeature featureFlags features = list_ex (\<lambda>feat. hasFeature featureFlags feat) features"

definition hasAllFeatures :: "FeatureFlag list \<Rightarrow> jsstring list \<Rightarrow> bool" where
  "hasAllFeatures featureFlags features = list_all (\<lambda>feat. hasFeature featureFlags feat) features"

definition checkFeatureAccess :: "AccessControlConfig \<Rightarrow> FeatureFlag list \<Rightarrow> bool" where
  "checkFeatureAccess config featureFlags =
     (if truthy (feature config) then hasFeature featureFlags (the (feature config))
      else if nonEmpty (anyFeature config) then hasAnyFeature featureFlags (the (anyFeature config))
      else if nonEmpty (allFeatures config) then hasAllFeatures featureFlags (the (allFeatures config))
      else True)"

definition checkPermissionAccess :: "AccessControlConfig \<Rightarrow> UserPermissions \<Rightarrow> bool" where
  "checkPermissionAccess config userPermissions =
     (if truthy (permission config)
        then hasPermission (permissions userPermissions) (the (permission config))
      else if nonEmpty (anyPermission config)
        then hasAnyPermission (permissions userPermissions) (the (anyPermission config))
      else if nonEmpty (allPermissions config)
        then hasAllPermissions (permissions userPermissions) (the (allPermissions config))
      else True)"

definition calculateFinalAccess :: "bool \<Rightarrow> bool \<Rightarrow> bool \<Rightarrow> bool \<Rightarrow> bool \<Rightarrow> bool" where
  "calculateFinalAccess reqBoth featureCheck permissionCheck featureAccess permissionAccess =
     (if \<not> featureCheck \<and> \<not> permissionCheck then False
      else if reqBoth then
        (if featureCheck \<and> permissionCheck then featureAccess \<and> permissionAccess
         else if featureCheck then featureAccess else permissionAccess)
      else
        (if featureCheck \<and> permissionCheck then featureAccess \<or> permissionAccess
         else if featureCheck then featureAccess else permissionAccess))"

text \<open>The value of \<open>requireBoth\<close> after the destructuring default \<open>requireBoth = false\<close>.\<close>

definition requireBothSet :: "AccessControlConfig \<Rightarrow> bool" where
  "requireBothSet config = (case requireBoth config of None \<Rightarrow> False | Some b \<Rightarrow> b)"

definition evaluateAccessControl ::
  "AccessControlConfig \<Rightarrow> UserPermissions \<Rightarrow> FeatureFlag list \<Rightarrow> AccessEvaluation" where
  "evaluateAccessControl config userPermissions featureFlags =
     (let reqBoth = requireBothSet config;
          featureCheck =
            (truthy (feature config) \<or> nonEmpty (anyFeature config) \<or> nonEmpty (allFeatures config));
          permissionCheck =
            (truthy (permission config) \<or> nonEmpty (anyPermission config)
               \<or> nonEmpty (allPermissions config));
          featureAccess = checkFeatureAccess config featureFlags;
          permissionAccess = checkPermissionAccess config userPermissions
      in \<lparr> hasAccess =
             calculateFinalAccess reqBoth featureCheck permissionCheck featureAccess permissionAccess,
           hasFeatureAccess = featureAccess,
           hasPermissionAccess = permissionAccess,
           hasFeatureCheck = featureCheck,
           hasPermissionCheck = permissionCheck \<rparr>)"

section \<open>The in-memory cache (core/utils.ts)\<close>

text \<open>
  Times are milliseconds as \<open>Date.now()\<close> returns them, and \<open>ttlMs\<close> is a number of
  milliseconds; both are integers here. Every function that reads the clock takes the
  reading \<open>now\<close> as its first argument.
\<close>

record 'v CacheEntry =
  data :: 'v
  timestamp :: int
  expiresAt :: int

definition isCacheValid :: "int \<Rightarrow> 'v CacheEntry \<Rightarrow> bool" where
  "isCacheValid now entry = (now < expiresAt entry)"

definition createCacheEntry :: "int \<Rightarrow> 'v \<Rightarrow> int option \<Rightarrow> 'v CacheEntry" where
  "createCacheEntry now d ttlMs =
     (let ttl = (case ttlMs of None \<Rightarrow> 5 * 60 * 1000 | Some t \<Rightarrow> t)
      in \<lparr> data = d, timestamp = now, expiresAt = now + ttl \<rparr>)"

text \<open>
  The class \<open>MemoryCache\<close> holds one \<open>Map\<close>. A JavaScript \<open>Map\<close> keeps its entries in
  insertion order with one entry per key: \<open>Map.set\<close> replaces the value of a present key
  in place and appends a new key, \<open>Map.delete\<close> removes the key, \<open>Map.size\<close> is the number
  of entries. This is an association list with \<open>AList.update\<close> and \<open>AList.delete\<close>.
\<close>

record 'v MemoryCache =
  cache :: "(jsstring \<times> 'v CacheEntry) list"

definition MemoryCache_new :: "'v MemoryCache" where
  "MemoryCache_new = \<lparr> cache = [] \<rparr>"

definition MemoryCache_get :: "int \<Rightarrow> jsstring \<Rightarrow> 'v MemoryCache \<Rightarrow> 'v option \<times> 'v MemoryCache" where
  "MemoryCache_get now key c =
     (case map_of (cache c) key of
        None \<Rightarrow> (None, c)
      | Some entry \<Rightarrow>
          if \<not> isCacheValid now entry then (None, c\<lparr> cache := AList.delete key (cache c) \<rparr>)
          else (Some (data entry), c))"

definition MemoryCache_set ::
  "int \<Rightarrow> jsstring \<Rightarrow> 'v \<Rightarrow> int option \<Rightarrow> 'v MemoryCache \<Rightarrow> 'v MemoryCache" where
  "MemoryCache_set now key d ttlMs c =
     c\<lparr> cache := AList.update key (createCacheEntry now d ttlMs) (cache c) \<rparr>"

definition MemoryCache_delete :: "jsstring \<Rightarrow> 'v MemoryCache \<Rightarrow> 'v MemoryCache" where
  "MemoryCache_delete key c = c\<lparr> cache := AList.delete key (cache c) \<rparr>"

definition MemoryCache_clear :: "'v MemoryCache \<Rightarrow> 'v MemoryCache" where
  "MemoryCache_clear c = c\<lparr> cache := [] \<rparr>"

definition MemoryCache_size :: "'v MemoryCache \<Rightarrow> nat" where
  "MemoryCache_size c = length (cache c)"

text \<open>One call of a method of the cache, and the state it leaves.\<close>

datatype 'v cache_call =
  Get jsstring | Set jsstring 'v "int option" | Delete jsstring | Clear | Size

fun MemoryCache_call :: "int \<Rightarrow> 'v cache_call \<Rightarrow> 'v MemoryCache \<Rightarrow> 'v MemoryCache" where
  "MemoryCache_call now (Get key) c = snd (MemoryCache_get now key c)"
| "MemoryCache_call now (Set key d ttlMs) c = MemoryCache_set now key d ttlMs c"
| "MemoryCache_call now (Delete key) c = MemoryCache_delete key c"
| "MemoryCache_call now Clear c = MemoryCache_clear c"
| "MemoryCache_call now Size c = c"

text \<open>The states of a cache: one entry per key.\<close>

definition cache_wf :: "'v MemoryCache \<Rightarrow> bool" where
  "cache_wf c = distinct (map fst (cache c))"

section \<open>Base64 (the platform functions \<open>btoa\<close> and \<open>atob\<close>)\<close>

text \<open>
  \<open>btoa\<close> and \<open>atob\<close> are functions of the host, specified by the HTML standard
  (forgiving-base64 encode and decode, over the alphabet of RFC 4648). \<open>btoa\<close> throws
  \<open>InvalidCharacterError\<close> when a code unit of its argument is above \<open>0xFF\<close>; \<open>atob\<close>
  throws it when, after ASCII whitespace is removed and up to two trailing \<open>=\<close> of a
  string of length divisible by four are dropped, the length is 1 modulo 4 or a character
  is outside the alphabet.
\<close>

datatype js_error = InvalidCharacterError | StorageFailure

definition b64char :: "nat \<Rightarrow> 16 word" where
  "b64char i =
     (if i < 26 then of_nat (65 + i)
      else if i < 52 then of_nat (97 + (i - 26))
      else if i < 62 then of_nat (48 + (i - 52))
      else if i = 62 then 43
      else 47)"

definition b64val :: "16 word \<Rightarrow> nat option" where
  "b64val c =
     (let n = unat c in
      if 65 \<le> n \<and> n \<le> 90 then Some (n - 65)
      else if 97 \<le> n \<and> n \<le> 122 then Some (n - 97 + 26)
      else if 48 \<le> n \<and> n \<le> 57 then Some (n - 48 + 52)
      else if n = 43 then Some 62
      else if n = 47 then Some 63
      else None)"

definition pad_char :: "16 word" where
  "pad_char = 61"

fun sextets :: "nat list \<Rightarrow> nat list" where
  "sextets (a # b # c # rest) =
     [a div 4, (a mod 4) * 16 + b div 16, (b mod 16) * 4 + c div 64, c mod 64] @ sextets rest"
| "sextets [a, b] = [a div 4, (a mod 4) * 16 + b div 16, (b mod 16) * 4]"
| "sextets [a] = [a div 4, (a mod 4) * 16]"
| "sextets [] = []"

definition padding :: "nat \<Rightarrow> jsstring" where
  "padding n = replicate ((3 - n mod 3) mod 3) pad_char"

definition btoa :: "jsstring \<Rightarrow> js_error + jsstring" where
  "btoa s =
     (if list_ex (\<lambda>c. 255 < c) s then Inl InvalidCharacterError
      else Inr (map b64char (sextets (map unat s)) @ padding (length s)))"

definition is_ascii_whitespace :: "16 word \<Rightarrow> bool" where
  "is_ascii_whitespace c = (c = 9 \<or> c = 10 \<or> c = 12 \<or> c = 13 \<or> c = 32)"

definition strip_padding :: "jsstring \<Rightarrow> jsstring" where
  "strip_padding d =
     (if length d mod 4 = 0 then
        (if 2 \<le> length d \<and> last d = pad_char \<and> last (butlast d) = pad_char
           then butlast (butlast d)
         else if d \<noteq> [] \<and> last d = pad_char then butlast d
         else d)
      else d)"

fun bytes_of_sextets :: "nat list \<Rightarrow> nat list" where
  "bytes_of_sextets (s1 # s2 # s3 # s4 # rest) =
     [s1 * 4 + s2 div 16, (s2 mod 16) * 16 + s3 div 4, (s3 mod 4) * 64 + s4]
       @ bytes_of_sextets rest"
| "bytes_of_sextets [s1, s2, s3] = [s1 * 4 + s2 div 16, (s2 mod 16) * 16 + s3 div 4]"
| "bytes_of_sextets [s1, s2] = [s1 * 4 + s2 div 16]"
| "bytes_of_sextets [s1] = []"
| "bytes_of_sextets [] = []"

definition atob :: "jsstring \<Rightarrow> js_error + jsstring" where
  "atob s =
     (let d = strip_padding (filter (\<lambda>c. \<not> is_ascii_whitespace c) s) in
      if length d mod 4 = 1 then Inl InvalidCharacterError
      else if list_ex (\<lambda>c. b64val c = None) d then Inl InvalidCharacterError
      else Inr (map of_nat (bytes_of_sextets (map (\<lambda>c. the (b64val c)) d))))"

section \<open>Cache keys (core/utils.ts)\<close>

text \<open>
  \<open>JSON.stringify\<close> is a function of the host; it is the parameter \<open>JSON_stringify\<close>.
  \<open>userId || 'anonymous'\<close> takes the sentinel when the identifier is absent or empty.
\<close>

definition userStringOf :: "jsstring option \<Rightarrow> jsstring" where
  "userStringOf uid = (if truthy uid then the uid else str ''anonymous'')"

definition generateCacheKey ::
  "('c \<Rightarrow> jsstring) \<Rightarrow> 'c \<Rightarrow> jsstring option \<Rightarrow> js_error + jsstring" where
  "generateCacheKey JSON_stringify config uid =
     (let configString = JSON_stringify config;
          userString = userStringOf uid
      in case btoa configString of
           Inl e \<Rightarrow> Inl e
         | Inr b \<Rightarrow> Inr (str ''access-control:'' @ userString @ str '':'' @ b))"

section \<open>Storage adapters (core/utils.ts, adapters/storage.ts)\<close>

text \<open>
  The interface \<open>StorageAdapter\<close> over a store of type \<open>'s\<close>. A call that throws, or whose
  promise rejects, is \<open>Inl\<close>; \<open>getItem\<close> returns \<open>null\<close> as \<open>None\<close>.
\<close>

record 's StorageAdapter =
  getItem :: "jsstring \<Rightarrow> 's \<Rightarrow> js_error + jsstring option"
  setItem :: "jsstring \<Rightarrow> jsstring \<Rightarrow> 's \<Rightarrow> js_error + 's"
  removeItem :: "jsstring \<Rightarrow> 's \<Rightarrow> js_error + 's"

definition getKey :: "jsstring \<Rightarrow> jsstring \<Rightarrow> jsstring" where
  "getKey prefix key = prefix @ str '':'' @ key"

text \<open>
  \<open>LocalStorageAdapter\<close> over the browser's \<open>localStorage\<close>, itself given as an adapter
  that may fail. Each method catches every exception.
\<close>

definition LocalStorageAdapter :: "jsstring \<Rightarrow> 's StorageAdapter \<Rightarrow> 's StorageAdapter" where
  "LocalStorageAdapter prefix localStorage =
     \<lparr> getItem = (\<lambda>key s.
         case getItem localStorage (getKey prefix key) s of
           Inl e \<Rightarrow> Inr None
         | Inr v \<Rightarrow> Inr v),
       setItem = (\<lambda>key v s.
         case setItem localStorage (getKey prefix key) v s of
           Inl e \<Rightarrow> Inr s
         | Inr s' \<Rightarrow> Inr s'),
       removeItem = (\<lambda>key s.
         case removeItem localStorage (getKey prefix key) s of
           Inl e \<Rightarrow> Inr s
         | Inr s' \<Rightarrow> Inr s') \<rparr>"

text \<open>\<open>MockStorageAdapter\<close>: a \<open>Map\<close> of strings; \<open>getItem\<close> is \<open>storage.get(key) || null\<close>.\<close>

definition MockStorageAdapter :: "(jsstring \<rightharpoonup> jsstring) StorageAdapter" where
  "MockStorageAdapter =
     \<lparr> getItem = (\<lambda>key s. Inr (if truthy (s key) then s key else None)),
       setItem = (\<lambda>key v s. Inr (s(key \<mapsto> v))),
       removeItem = (\<lambda>key s. Inr (s(key := None))) \<rparr>"

text \<open>
  \<open>EncryptedStorageAdapter\<close>. \<open>this.secretKey.charCodeAt(i % this.secretKey.length)\<close> is
  \<open>NaN\<close> for the empty key, and \<open>x ^ NaN\<close> is \<open>x\<close>. Both operands of \<open>^\<close> are code units,
  so \<open>String.fromCharCode\<close> gets a value below \<open>2^16\<close>.
\<close>

definition keyCodeAt :: "jsstring \<Rightarrow> nat \<Rightarrow> 16 word" where
  "keyCodeAt secretKey i = (if secretKey = [] then 0 else secretKey ! (i mod length secretKey))"

definition xorWithKey :: "jsstring \<Rightarrow> jsstring \<Rightarrow> jsstring" where
  "xorWithKey secretKey text = map (\<lambda>i. (text ! i) XOR keyCodeAt secretKey i) [0..<length text]"

definition encrypt :: "jsstring \<Rightarrow> jsstring \<Rightarrow> js_error + jsstring" where
  "encrypt secretKey text = btoa (xorWithKey secretKey text)"

definition decrypt :: "jsstring \<Rightarrow> jsstring \<Rightarrow> js_error + jsstring" where
  "decrypt secretKey encryptedText =
     (case atob encryptedText of
        Inl e \<Rightarrow> Inr []
      | Inr text \<Rightarrow> Inr (xorWithKey secretKey text))"

definition EncryptedStorageAdapter :: "'s StorageAdapter \<Rightarrow> jsstring \<Rightarrow> 's StorageAdapter" where
  "EncryptedStorageAdapter baseAdapter secretKey =
     \<lparr> getItem = (\<lambda>key s.
         case getItem baseAdapter key s of
           Inl e \<Rightarrow> Inl e
         | Inr encryptedValue \<Rightarrow>
             if \<not> truthy encryptedValue then Inr None
             else (case decrypt secretKey (the encryptedValue) of
                     Inl e \<Rightarrow> Inr None
                   | Inr v \<Rightarrow> Inr (Some v))),
       setItem = (\<lambda>key v s.
         case encrypt secretKey v of
           Inl e \<Rightarrow> Inl e
         | Inr encryptedValue \<Rightarrow> setItem baseAdapter key encryptedValue s),
       removeItem = (\<lambda>key s. removeItem baseAdapter key s) \<rparr>"

section \<open>Predicates of the specification\<close>

text \<open>
  A feature id resolves to an enabled flag: the first flag of the list whose \<open>id\<close> or
  \<open>name\<close> is the id exists and is enabled.
\<close>

definition resolvesToEnabled :: "FeatureFlag list \<Rightarrow> jsstring \<Rightarrow> bool" where
  "resolvesToEnabled F x =
     (\<exists>i<length F. (id_flag (F ! i) = x \<or> name (F ! i) = x) \<and> enabled (F ! i)
        \<and> (\<forall>j<i. id_flag (F ! j) \<noteq> x \<and> name (F ! j) \<noteq> x))"

text \<open>
  A feature check is requested: \<open>feature\<close> is a non-empty string, or \<open>anyFeature\<close> or
  \<open>allFeatures\<close> is a non-empty array. Likewise for permissions.
\<close>

definition featureCheckRequested :: "AccessControlConfig \<Rightarrow> bool" where
  "featureCheckRequested config =
     ((feature config \<noteq> None \<and> feature config \<noteq> Some [])
      \<or> (anyFeature config \<noteq> None \<and> anyFeature config \<noteq> Some [])
      \<or> (allFeatures config \<noteq> None \<and> allFeatures config \<noteq> Some []))"

definition permissionCheckRequested :: "AccessControlConfig \<Rightarrow> bool" where
  "permissionCheckRequested config =
     ((permission config \<noteq> None \<and> permission config \<noteq> Some [])
      \<or> (anyPermission config \<noteq> None \<and> anyPermission config \<noteq> Some [])
      \<or> (allPermissions config \<noteq> None \<and> allPermissions config \<noteq> Some []))"

text \<open>
  The same with "no feature check" read as: \<open>feature\<close> unset, \<open>anyFeature\<close> empty or unset,
  \<open>allFeatures\<close> empty or unset.
\<close>

definition featureCheckRequested_unset :: "AccessControlConfig \<Rightarrow> bool" where
  "featureCheckRequested_unset config =
     (\<not> (feature config = None
         \<and> (anyFeature config = None \<or> anyFeature config = Some [])
         \<and> (allFeatures config = None \<or> allFeatures config = Some [])))"

text \<open>
  A base adapter that works: \<open>setItem\<close> succeeds, and \<open>getItem\<close> of the same key in the
  store it leaves returns the value stored (for a non-empty value: \<open>MockStorageAdapter\<close>
  reads an empty one back as \<open>null\<close>).
\<close>

definition stores_faithfully :: "'s StorageAdapter \<Rightarrow> bool" where
  "stores_faithfully a =
     (\<forall>key x s. \<exists>s'. setItem a key x s = Inr s'
        \<and> (x \<noteq> [] \<longrightarrow> getItem a key s' = Inr (Some x)))"

text \<open>\<open>setItem(k, v)\<close> followed by \<open>getItem(k)\<close>; an error of either call is the result.\<close>

definition set_then_get ::
  "'s StorageAdapter \<Rightarrow> jsstring \<Rightarrow> jsstring \<Rightarrow> 's \<Rightarrow> js_error + jsstring option" where
  "set_then_get a key v s =
     (case setItem a key v s of Inl e \<Rightarrow> Inl e | Inr s' \<Rightarrow> getItem a key s')"

section \<open>Example data\<close>

text \<open>
  A \<open>localStorage\<close> that is available and never full: the Web Storage methods on a map
  from keys to values.
\<close>

definition browserStorage :: "(jsstring \<rightharpoonup> jsstring) StorageAdapter" where
  "browserStorage =
     \<lparr> getItem = (\<lambda>key s. Inr (s key)),
       setItem = (\<lambda>key v s. Inr (s(key \<mapsto> v))),
       removeItem = (\<lambda>key s. Inr (s(key := None))) \<rparr>"

text \<open>
  \<open>JSON.stringify\<close> on the configs that have at most a \<open>feature\<close> field, whose string
  has no character that JSON escapes: \<open>{}\<close>, or the one member between braces, the key
  and the string each between double quotes (code unit 34).
\<close>

definition json_quote_plain :: "jsstring \<Rightarrow> jsstring" where
  "json_quote_plain x = [34] @ x @ [34]"

definition stringify_feature_only :: "AccessControlConfig \<Rightarrow> jsstring" where
  "stringify_feature_only config =
     (case feature config of
        None \<Rightarrow> str ''{}''
      | Some f \<Rightarrow> str ''{'' @ json_quote_plain (str ''feature'') @ str '':'' @ json_quote_plain f
          @ str ''}'')"

text \<open>The config \<open>{}\<close>.\<close>

definition no_checks :: AccessControlConfig where
  "no_checks = \<lparr> feature = None, anyFeature = None, allFeatures = None, permission = None,
                 anyPermission = None, allPermissions = None, requireBoth = None \<rparr>"

definition reader :: UserPermissions where
  "reader = \<lparr> permissions = [str ''READ_USERS''], roles = [], userId = Some (str ''u1''),
              organizationId = None \<rparr>"

definition flag :: "string \<Rightarrow> string \<Rightarrow> bool \<Rightarrow> FeatureFlag" where
  "flag i n e = \<lparr> id_flag = str i, name = str n, enabled = e, description = None,
                  category = None, requiresConfig = None \<rparr>"

definition two_flags :: "FeatureFlag list" where
  "two_flags = [flag ''f1'' ''Search'' True, flag ''f2'' ''Beta'' False]"

section \<open>The evaluator: results\<close>

lemma truthy_iff: "truthy s = (s \<noteq> None \<and> s \<noteq> Some [])"
  by (cases s) (simp_all add: truthy_def)

lemma nonEmpty_iff: "nonEmpty xs = (xs \<noteq> None \<and> xs \<noteq> Some [])"
  by (cases xs) (simp_all add: nonEmpty_def)

lemma hasFeature_resolves: "hasFeature F x = resolvesToEnabled F x"
proof (cases "List.find (\<lambda>f. id_flag f = x \<or> name f = x) F")
  case None
  then have nomatch: "\<And>i. i < length F \<Longrightarrow> id_flag (F ! i) \<noteq> x \<and> name (F ! i) \<noteq> x"
    by (auto simp: find_None_iff)
  have "\<not> hasFeature F x"
    using None by (simp add: hasFeature_def)
  moreover have "\<not> resolvesToEnabled F x"
    using nomatch by (auto simp: resolvesToEnabled_def)
  ultimately show ?thesis by simp
next
  case (Some fl)
  then obtain i where i: "i < length F" "id_flag (F ! i) = x \<or> name (F ! i) = x" "fl = F ! i"
    "\<And>j. j < i \<Longrightarrow> id_flag (F ! j) \<noteq> x \<and> name (F ! j) \<noteq> x"
    by (auto simp: find_Some_iff)
  have hf: "hasFeature F x = enabled (F ! i)"
    using Some i(3) by (simp add: hasFeature_def)
  show ?thesis
  proof
    assume "hasFeature F x"
    with hf i show "resolvesToEnabled F x"
      unfolding resolvesToEnabled_def by blast
  next
    assume "resolvesToEnabled F x"
    then obtain k where k: "k < length F" "id_flag (F ! k) = x \<or> name (F ! k) = x"
      "enabled (F ! k)" "\<And>j. j < k \<Longrightarrow> id_flag (F ! j) \<noteq> x \<and> name (F ! j) \<noteq> x"
      unfolding resolvesToEnabled_def by blast
    have "k = i"
    proof (rule ccontr)
      assume "k \<noteq> i"
      then consider "k < i" | "i < k" by linarith
      then show False
        using i(2) i(4) k(2) k(4) by cases blast+
    qed
    with k(3) hf show "hasFeature F x" by simp
  qed
qed

lemmas evaluator_defs =
  evaluateAccessControl_def calculateFinalAccess_def requireBothSet_def checkFeatureAccess_def
  checkPermissionAccess_def hasFeature_def hasAnyFeature_def hasAllFeatures_def hasPermission_def
  hasAnyPermission_def hasAllPermissions_def truthy_def nonEmpty_def Let_def

lemmas example_defs = no_checks_def reader_def two_flags_def flag_def str_def



lemma evaluateAccessControl_fields:
  "hasFeatureCheck (evaluateAccessControl config u F)
     = (truthy (feature config) \<or> nonEmpty (anyFeature config) \<or> nonEmpty (allFeatures config))"
  "hasPermissionCheck (evaluateAccessControl config u F)
     = (truthy (permission config) \<or> nonEmpty (anyPermission config)
        \<or> nonEmpty (allPermissions config))"
  "hasFeatureAccess (evaluateAccessControl config u F) = checkFeatureAccess config F"
  "hasPermissionAccess (evaluateAccessControl config u F) = checkPermissionAccess config u"
  by (simp_all add: evaluateAccessControl_def Let_def)

lemma featureCheckRequested_truthy:
  "featureCheckRequested config
     = (truthy (feature config) \<or> nonEmpty (anyFeature config) \<or> nonEmpty (allFeatures config))"
  by (simp add: featureCheckRequested_def truthy_iff nonEmpty_iff)

lemma permissionCheckRequested_truthy:
  "permissionCheckRequested config
     = (truthy (permission config) \<or> nonEmpty (anyPermission config)
        \<or> nonEmpty (allPermissions config))"
  by (simp add: permissionCheckRequested_def truthy_iff nonEmpty_iff)

lemma checkFeatureAccess_default:
  "\<not> (truthy (feature config) \<or> nonEmpty (anyFeature config) \<or> nonEmpty (allFeatures config))
   \<Longrightarrow> checkFeatureAccess config F"
  by (simp add: checkFeatureAccess_def)

lemma checkPermissionAccess_default:
  "\<not> (truthy (permission config) \<or> nonEmpty (anyPermission config)
       \<or> nonEmpty (allPermissions config))
   \<Longrightarrow> checkPermissionAccess config u"
  by (simp add: checkPermissionAccess_def)

text \<open>
  C2, as stated: the flag \<open>hasFeatureCheck\<close> is true exactly when a feature check is requested,
  where no feature check is requested when \<open>feature\<close> is unset and \<open>anyFeature\<close> and
  \<open>allFeatures\<close> are empty or unset. The config \<open>{feature: ""}\<close> has \<open>feature\<close> set, and
  \<open>hasFeatureCheck\<close> is false: the test \<open>if (feature)\<close> takes the empty string for no request.
\<close>

theorem evaluateAccessControl_check_flags_counterexample:
  "featureCheckRequested_unset (no_checks\<lparr> feature := Some [] \<rparr>)
   \<and> \<not> hasFeatureCheck (evaluateAccessControl (no_checks\<lparr> feature := Some [] \<rparr>) reader two_flags)"
  by (simp add: featureCheckRequested_unset_def evaluator_defs example_defs)

text \<open>
  C2, amended. With "requested" read as: \<open>feature\<close> is a non-empty string, or \<open>anyFeature\<close> or
  \<open>allFeatures\<close> is a non-empty array (and the same for permissions): \<open>hasFeatureCheck\<close> and
  \<open>hasPermissionCheck\<close> are true exactly when the corresponding check is requested; when no
  feature check is requested \<open>hasFeatureAccess\<close> is true, and when no permission check is
  requested \<open>hasPermissionAccess\<close> is true.
\<close>

theorem evaluateAccessControl_check_flags:
  "(let r = evaluateAccessControl config u F in
     hasFeatureCheck r = featureCheckRequested config
     \<and> hasPermissionCheck r = permissionCheckRequested config
     \<and> (\<not> featureCheckRequested config \<longrightarrow> hasFeatureAccess r)
     \<and> (\<not> permissionCheckRequested config \<longrightarrow> hasPermissionAccess r))"
  using checkFeatureAccess_default [of config F] checkPermissionAccess_default [of config u]
  by (simp add: evaluateAccessControl_fields featureCheckRequested_truthy
      permissionCheckRequested_truthy Let_def)

theorem evaluateAccessControl_check_flags_witness:
  "\<not> featureCheckRequested (no_checks\<lparr> allFeatures := Some [] \<rparr>)
   \<and> \<not> permissionCheckRequested (no_checks\<lparr> allFeatures := Some [] \<rparr>)
   \<and> \<not> hasFeatureCheck (evaluateAccessControl (no_checks\<lparr> allFeatures := Some [] \<rparr>) reader two_flags)
   \<and> hasFeatureAccess (evaluateAccessControl (no_checks\<lparr> allFeatures := Some [] \<rparr>) reader two_flags)
   \<and> hasPermissionAccess (evaluateAccessControl (no_checks\<lparr> allFeatures := Some [] \<rparr>) reader two_flags)"
  using evaluateAccessControl_check_flags [of "no_checks\<lparr> allFeatures := Some [] \<rparr>" reader two_flags]
  by (simp add: Let_def featureCheckRequested_def permissionCheckRequested_def no_checks_def)

text \<open>
  C3. \<open>hasAnyFeature F L\<close> is true iff at least one id of \<open>L\<close> resolves to an enabled flag of
  \<open>F\<close>, and \<open>hasAllFeatures F L\<close> iff every id of \<open>L\<close> does, where an id resolves to the
  first flag of \<open>F\<close> whose \<open>id\<close> or \<open>name\<close> field equals it; on the empty \<open>L\<close> the first is
  false and the second true. \<open>hasPermission P x\<close> is true iff \<open>x\<close> is a member of \<open>P\<close>,
  \<open>hasAnyPermission P L\<close> iff some element of \<open>L\<close> is, \<open>hasAllPermissions P L\<close> iff all are.
\<close>

theorem any_all_membership:
  "(hasAnyFeature F L \<longleftrightarrow> (\<exists>x\<in>set L. resolvesToEnabled F x))
   \<and> (hasAllFeatures F L \<longleftrightarrow> (\<forall>x\<in>set L. resolvesToEnabled F x))
   \<and> \<not> hasAnyFeature F []
   \<and> hasAllFeatures F []
   \<and> (hasPermission P x \<longleftrightarrow> x \<in> set P)
   \<and> (hasAnyPermission P L' \<longleftrightarrow> (\<exists>x\<in>set L'. x \<in> set P))
   \<and> (hasAllPermissions P L' \<longleftrightarrow> (\<forall>x\<in>set L'. x \<in> set P))
   \<and> \<not> hasAnyPermission P []
   \<and> hasAllPermissions P []"
  by (simp add: hasAnyFeature_def hasAllFeatures_def hasPermission_def hasAnyPermission_def
      hasAllPermissions_def hasFeature_resolves list_ex_iff list_all_iff)

theorem any_all_membership_witness:
  "hasAnyFeature two_flags [str ''f2'', str ''Search'']
   \<and> \<not> hasAllFeatures two_flags [str ''f2'', str ''Search'']
   \<and> resolvesToEnabled two_flags (str ''Search'')
   \<and> \<not> resolvesToEnabled two_flags (str ''f2'')
   \<and> hasAllPermissions (permissions reader) [str ''READ_USERS'']
   \<and> str ''READ_USERS'' \<in> set (permissions reader)"
proof -
  have code: "hasAnyFeature two_flags [str ''f2'', str ''Search'']"
    "\<not> hasAllFeatures two_flags [str ''f2'', str ''Search'']"
    "hasAnyFeature two_flags [str ''Search'']"
    "\<not> hasAnyFeature two_flags [str ''f2'']"
    "hasAllPermissions (permissions reader) [str ''READ_USERS'']"
    by (simp_all add: evaluator_defs example_defs)
  from code(3)
    any_all_membership [of two_flags "[str ''Search'']" "permissions reader" "str ''READ_USERS''"
      "[str ''READ_USERS'']"]
  have yes: "resolvesToEnabled two_flags (str ''Search'')" by simp
  from code(4)
    any_all_membership [of two_flags "[str ''f2'']" "permissions reader" "str ''READ_USERS''"
      "[str ''READ_USERS'']"]
  have no: "\<not> resolvesToEnabled two_flags (str ''f2'')" by simp
  from code(5)
    any_all_membership [of two_flags "[str ''Search'']" "permissions reader" "str ''READ_USERS''"
      "[str ''READ_USERS'']"]
  have mem: "str ''READ_USERS'' \<in> set (permissions reader)" by simp
  from code(1,2,5) yes no mem show ?thesis by blast
qed

text \<open>
  When the flags that match an id agree on \<open>enabled\<close>, the first match decides as any match
  does; a disabled flag ahead of an enabled one with the same id or name shadows it.
\<close>

lemma resolvesToEnabled_unambiguous:
  assumes "\<And>f g. f \<in> set F \<Longrightarrow> g \<in> set F \<Longrightarrow> id_flag f = x \<or> name f = x
    \<Longrightarrow> id_flag g = x \<or> name g = x \<Longrightarrow> enabled f = enabled g"
  shows "resolvesToEnabled F x \<longleftrightarrow> (\<exists>f\<in>set F. (id_flag f = x \<or> name f = x) \<and> enabled f)"
proof
  assume "resolvesToEnabled F x"
  then show "\<exists>f\<in>set F. (id_flag f = x \<or> name f = x) \<and> enabled f"
    unfolding resolvesToEnabled_def using nth_mem by blast
next
  assume "\<exists>f\<in>set F. (id_flag f = x \<or> name f = x) \<and> enabled f"
  then obtain f where f: "f \<in> set F" "id_flag f = x \<or> name f = x" "enabled f" by blast
  then have "List.find (\<lambda>f. id_flag f = x \<or> name f = x) F \<noteq> None"
    by (auto simp: find_None_iff)
  then obtain g where g: "List.find (\<lambda>f. id_flag f = x \<or> name f = x) F = Some g" by blast
  then have "g \<in> set F" "id_flag g = x \<or> name g = x"
    by (auto simp: find_Some_iff)
  with f assms [of g f] have "enabled g" by blast
  with g have "hasFeature F x" by (simp add: hasFeature_def)
  then show "resolvesToEnabled F x" by (simp add: hasFeature_resolves)
qed

lemma first_match_shadows:
  "\<not> hasFeature [flag ''a'' ''A'' False, flag ''b'' ''a'' True] (str ''a'')"
  by (simp add: hasFeature_def flag_def str_def)

lemma empty_field_checks:
  "checkFeatureAccess (config\<lparr> feature := Some [] \<rparr>) F
     = checkFeatureAccess (config\<lparr> feature := None \<rparr>) F"
  "checkPermissionAccess (config\<lparr> feature := x \<rparr>) u = checkPermissionAccess config u"
  "checkPermissionAccess (config\<lparr> permission := Some [] \<rparr>) u
     = checkPermissionAccess (config\<lparr> permission := None \<rparr>) u"
  "checkFeatureAccess (config\<lparr> permission := y \<rparr>) F = checkFeatureAccess config F"
  by (simp_all add: checkFeatureAccess_def checkPermissionAccess_def truthy_def)

text \<open>
  C10. In \<open>evaluateAccessControl\<close> a \<open>feature\<close> field that is the empty string is treated as an
  absent one, and so is an empty \<open>permission\<close> field: the whole result is the one of the config
  without the field. When no array requests a feature check either, \<open>hasFeatureCheck\<close> is false
  and \<open>hasFeatureAccess\<close> is true (and the same for permissions), and a config with nothing
  but \<open>feature: ""\<close> is denied, whatever \<open>requireBoth\<close> is.
\<close>

theorem empty_string_is_no_check:
  "evaluateAccessControl (config\<lparr> feature := Some [] \<rparr>) u F
     = evaluateAccessControl (config\<lparr> feature := None \<rparr>) u F
   \<and> evaluateAccessControl (config\<lparr> permission := Some [] \<rparr>) u F
     = evaluateAccessControl (config\<lparr> permission := None \<rparr>) u F
   \<and> (\<not> nonEmpty (anyFeature config) \<and> \<not> nonEmpty (allFeatures config) \<longrightarrow>
        \<not> hasFeatureCheck (evaluateAccessControl (config\<lparr> feature := Some [] \<rparr>) u F)
        \<and> hasFeatureAccess (evaluateAccessControl (config\<lparr> feature := Some [] \<rparr>) u F))
   \<and> (\<not> nonEmpty (anyPermission config) \<and> \<not> nonEmpty (allPermissions config) \<longrightarrow>
        \<not> hasPermissionCheck (evaluateAccessControl (config\<lparr> permission := Some [] \<rparr>) u F)
        \<and> hasPermissionAccess (evaluateAccessControl (config\<lparr> permission := Some [] \<rparr>) u F))
   \<and> \<not> hasAccess (evaluateAccessControl (no_checks\<lparr> feature := Some [], requireBoth := rb \<rparr>) u F)
   \<and> \<not> hasAccess (evaluateAccessControl (no_checks\<lparr> permission := Some [], requireBoth := rb \<rparr>) u F)"
proof -
  have f: "evaluateAccessControl (config\<lparr> feature := Some [] \<rparr>) u F
            = evaluateAccessControl (config\<lparr> feature := None \<rparr>) u F" for config
    by (simp add: evaluateAccessControl_def empty_field_checks requireBothSet_def truthy_def
        Let_def)
  have p: "evaluateAccessControl (config\<lparr> permission := Some [] \<rparr>) u F
            = evaluateAccessControl (config\<lparr> permission := None \<rparr>) u F" for config
    by (simp add: evaluateAccessControl_def empty_field_checks requireBothSet_def truthy_def
        Let_def)
  have fc: "\<not> nonEmpty (anyFeature config) \<and> \<not> nonEmpty (allFeatures config) \<longrightarrow>
        \<not> hasFeatureCheck (evaluateAccessControl (config\<lparr> feature := Some [] \<rparr>) u F)
        \<and> hasFeatureAccess (evaluateAccessControl (config\<lparr> feature := Some [] \<rparr>) u F)"
    by (simp add: evaluateAccessControl_fields checkFeatureAccess_def truthy_def)
  have pc: "\<not> nonEmpty (anyPermission config) \<and> \<not> nonEmpty (allPermissions config) \<longrightarrow>
        \<not> hasPermissionCheck (evaluateAccessControl (config\<lparr> permission := Some [] \<rparr>) u F)
        \<and> hasPermissionAccess (evaluateAccessControl (config\<lparr> permission := Some [] \<rparr>) u F)"
    by (simp add: evaluateAccessControl_fields checkPermissionAccess_def truthy_def)
  have df: "\<not> hasAccess (evaluateAccessControl (no_checks\<lparr> feature := Some [], requireBoth := rb \<rparr>) u F)"
    by (simp add: evaluateAccessControl_def calculateFinalAccess_def truthy_def nonEmpty_def
        no_checks_def Let_def)
  have dp: "\<not> hasAccess (evaluateAccessControl (no_checks\<lparr> permission := Some [], requireBoth := rb \<rparr>) u F)"
    by (simp add: evaluateAccessControl_def calculateFinalAccess_def truthy_def nonEmpty_def
        no_checks_def Let_def)
  from f [of config] p [of config] fc pc df dp show ?thesis by blast
qed

theorem empty_string_is_no_check_witness:
  "\<not> nonEmpty (anyFeature no_checks) \<and> \<not> nonEmpty (allFeatures no_checks)
   \<and> \<not> nonEmpty (anyPermission no_checks) \<and> \<not> nonEmpty (allPermissions no_checks)
   \<and> \<not> hasFeatureCheck (evaluateAccessControl (no_checks\<lparr> feature := Some [] \<rparr>) reader two_flags)
   \<and> hasFeatureAccess (evaluateAccessControl (no_checks\<lparr> feature := Some [] \<rparr>) reader two_flags)
   \<and> \<not> hasPermissionCheck (evaluateAccessControl (no_checks\<lparr> permission := Some [] \<rparr>) reader two_flags)
   \<and> hasPermissionAccess (evaluateAccessControl (no_checks\<lparr> permission := Some [] \<rparr>) reader two_flags)
   \<and> \<not> hasAccess (evaluateAccessControl (no_checks\<lparr> feature := Some [], requireBoth := Some True \<rparr>) reader two_flags)"
proof -
  have "\<not> nonEmpty (anyFeature no_checks) \<and> \<not> nonEmpty (allFeatures no_checks)
    \<and> \<not> nonEmpty (anyPermission no_checks) \<and> \<not> nonEmpty (allPermissions no_checks)"
    by (simp add: nonEmpty_def no_checks_def)
  with empty_string_is_no_check [of no_checks reader two_flags "Some True"]
  show ?thesis by blast
qed


section \<open>The cache: results\<close>

lemma cache_wf_new: "cache_wf MemoryCache_new"
  by (simp add: cache_wf_def MemoryCache_new_def)

lemma cache_wf_call: "cache_wf c \<Longrightarrow> cache_wf (MemoryCache_call now call c)"
  by (cases call)
    (auto simp: cache_wf_def MemoryCache_get_def MemoryCache_set_def MemoryCache_delete_def
      MemoryCache_clear_def distinct_update distinct_delete split: option.splits)

lemma length_delete_present:
  "distinct (map fst al) \<Longrightarrow> map_of al k = Some e \<Longrightarrow> Suc (length (AList.delete k al)) = length al"
proof (induction al)
  case Nil
  then show ?case by simp
next
  case (Cons p al)
  show ?case
  proof (cases "fst p = k")
    case True
    with Cons.prems(1) have "k \<notin> fst ` set al" by auto
    then have "AList.delete k al = al" by simp
    with True show ?thesis by (cases p) simp
  next
    case False
    with Cons show ?thesis by (cases p) auto
  qed
qed

lemma length_update_alist:
  "length (AList.update k v al) = (if map_of al k = None then Suc (length al) else length al)"
  by (induction al) auto

lemma size_is_card_dom: "cache_wf c \<Longrightarrow> MemoryCache_size c = card (dom (map_of (cache c)))"
proof -
  assume "cache_wf c"
  then have "card (set (map fst (cache c))) = length (map fst (cache c))"
    unfolding cache_wf_def by (rule distinct_card)
  then show ?thesis
    by (simp add: MemoryCache_size_def dom_map_of_conv_image_fst)
qed


lemma get_expired:
  assumes "map_of (cache c) key = Some entry" "expiresAt entry \<le> now"
  shows "MemoryCache_get now key c = (None, c\<lparr> cache := AList.delete key (cache c) \<rparr>)"
  using assms by (simp add: MemoryCache_get_def isCacheValid_def)

lemma get_size_decreases:
  assumes "MemoryCache_size (snd (MemoryCache_get now key c)) < MemoryCache_size c"
  shows "\<exists>e. map_of (cache c) key = Some e \<and> expiresAt e \<le> now"
  using assms
  by (auto simp: MemoryCache_get_def MemoryCache_size_def isCacheValid_def
      split: option.splits if_splits)

lemma set_size: 
  "MemoryCache_size (MemoryCache_set now key v ttlMs c)
     = (if map_of (cache c) key = None then Suc (MemoryCache_size c) else MemoryCache_size c)"
  by (simp add: MemoryCache_set_def MemoryCache_size_def length_update_alist)



text \<open>
  C5. In a cache with one entry per key: when the clock is at or past the expiry of the entry
  of a key, \<open>get\<close> of that key returns nothing and removes that entry, and only that one
  (every other key keeps its entry, expired or not); \<open>size\<close> is the number of keys that have
  an entry, whatever their expiry, and a \<open>set\<close> of a fresh key adds one to it even when the
  entry is born expired; a call that makes \<open>size\<close> smaller is \<open>clear\<close>, a \<open>delete\<close>, or a
  \<open>get\<close> of a key whose entry has expired.
\<close>

theorem cache_lazy_expiry:
  assumes "cache_wf c"
  shows "(map_of (cache c) key = Some entry \<and> expiresAt entry \<le> now \<longrightarrow>
           fst (MemoryCache_get now key c) = None
           \<and> map_of (cache (snd (MemoryCache_get now key c))) key = None
           \<and> (\<forall>k. k \<noteq> key \<longrightarrow>
                map_of (cache (snd (MemoryCache_get now key c))) k = map_of (cache c) k)
           \<and> Suc (MemoryCache_size (snd (MemoryCache_get now key c))) = MemoryCache_size c)
         \<and> MemoryCache_size c = card (dom (map_of (cache c)))
         \<and> (map_of (cache c) key' = None \<longrightarrow>
              MemoryCache_size (MemoryCache_set now key' v ttlMs c) = Suc (MemoryCache_size c))
         \<and> (MemoryCache_size (MemoryCache_call now call c) < MemoryCache_size c \<longrightarrow>
              call = Clear \<or> (\<exists>k. call = Delete k)
              \<or> (\<exists>k e. call = Get k \<and> map_of (cache c) k = Some e \<and> expiresAt e \<le> now))"
proof -
  have expired: "fst (MemoryCache_get now key c) = None
      \<and> map_of (cache (snd (MemoryCache_get now key c))) key = None
      \<and> (\<forall>k. k \<noteq> key \<longrightarrow>
           map_of (cache (snd (MemoryCache_get now key c))) k = map_of (cache c) k)
      \<and> Suc (MemoryCache_size (snd (MemoryCache_get now key c))) = MemoryCache_size c"
    if "map_of (cache c) key = Some entry" "expiresAt entry \<le> now"
    using that assms length_delete_present [of "cache c" key entry]
    by (simp add: get_expired delete_conv' MemoryCache_size_def cache_wf_def)
  have decreasing: "call = Clear \<or> (\<exists>k. call = Delete k)
      \<or> (\<exists>k e. call = Get k \<and> map_of (cache c) k = Some e \<and> expiresAt e \<le> now)"
    if "MemoryCache_size (MemoryCache_call now call c) < MemoryCache_size c"
  proof (cases call)
    case (Get k)
    with that get_size_decreases [of now k c] show ?thesis by simp
  next
    case (Set k d t)
    with that show ?thesis by (simp add: set_size split: if_splits)
  next
    case Size
    with that show ?thesis by simp
  qed simp_all
  from expired decreasing size_is_card_dom [OF assms] show ?thesis
    by (simp add: set_size)
qed

theorem cache_lazy_expiry_witness:
  "cache_wf (MemoryCache_set 0 (str ''k'') (7::nat) (Some 0) MemoryCache_new)
   \<and> fst (MemoryCache_get 5 (str ''k'') (MemoryCache_set 0 (str ''k'') (7::nat) (Some 0) MemoryCache_new)) = None
   \<and> MemoryCache_size (MemoryCache_set 0 (str ''k'') (7::nat) (Some 0) MemoryCache_new) = 1
   \<and> MemoryCache_size (snd (MemoryCache_get 5 (str ''k'')
        (MemoryCache_set 0 (str ''k'') (7::nat) (Some 0) MemoryCache_new))) = 0
   \<and> MemoryCache_size (MemoryCache_set 5 (str ''j'') 8 (Some (- 1))
        (MemoryCache_set 0 (str ''k'') (7::nat) (Some 0) MemoryCache_new)) = 2"
proof -
  let ?c = "MemoryCache_set 0 (str ''k'') (7::nat) (Some 0) MemoryCache_new"
  let ?e = "\<lparr> data = 7::nat, timestamp = 0, expiresAt = 0 \<rparr>"
  have wf: "cache_wf ?c"
    by (simp add: cache_wf_def MemoryCache_set_def MemoryCache_new_def)
  have entry: "map_of (cache ?c) (str ''k'') = Some ?e \<and> expiresAt ?e \<le> 5"
    by (simp add: MemoryCache_set_def MemoryCache_new_def createCacheEntry_def)
  have fresh: "map_of (cache ?c) (str ''j'') = None"
    by (simp add: MemoryCache_set_def MemoryCache_new_def str_def)
  have sz: "MemoryCache_size ?c = 1"
    by (simp add: MemoryCache_size_def MemoryCache_set_def MemoryCache_new_def)
  from cache_lazy_expiry [OF wf, of "str ''k''" ?e 5 "str ''j''" 8 "Some (- 1)" "Get (str ''k'')"]
    entry fresh sz wf
  show ?thesis by simp
qed

section \<open>Base64: results\<close>

lemma pack_div: "y < k \<Longrightarrow> (x * k + y) div k = (x::nat)"
  by simp

lemma pack_mod: "y < k \<Longrightarrow> (x * k + y) mod k = (y::nat)"
  by simp

lemma byte_div_bounds:
  fixes b :: nat
  assumes "b < 256"
  shows "b div 4 < 64" "b div 16 < 16" "b div 64 < 4"
  using assms by (simp_all add: less_mult_imp_div_less)

lemma sextet_bounds:
  fixes a b c :: nat
  assumes "a < 256" "b < 256" "c < 256"
  shows "a div 4 < 64" "(a mod 4) * 16 + b div 16 < 64" "(b mod 16) * 4 + c div 64 < 64"
    "c mod 64 < 64" "(a mod 4) * 16 < 64" "(b mod 16) * 4 < 64"
proof -
  have m: "a mod 4 < 4" "b mod 16 < 16" by simp_all
  from m byte_div_bounds [OF assms(2)] show "(a mod 4) * 16 + b div 16 < 64" by linarith
  from m byte_div_bounds [OF assms(3)] show "(b mod 16) * 4 + c div 64 < 64" by linarith
  from m show "(a mod 4) * 16 < 64" "(b mod 16) * 4 < 64" by linarith+
  show "a div 4 < 64" by (rule byte_div_bounds [OF assms(1)])
  show "c mod 64 < 64" by simp
qed

lemma sextet_unpack:
  fixes a b c :: nat
  assumes "b < 256" "c < 256"
  shows "(a div 4) * 4 + ((a mod 4) * 16 + b div 16) div 16 = a"
    "(((a mod 4) * 16 + b div 16) mod 16) * 16 + ((b mod 16) * 4 + c div 64) div 4 = b"
    "(((b mod 16) * 4 + c div 64) mod 4) * 64 + c mod 64 = c"
    "(a div 4) * 4 + ((a mod 4) * 16) div 16 = a"
    "(((a mod 4) * 16 + b div 16) mod 16) * 16 + ((b mod 16) * 4) div 4 = b"
proof -
  note bb = byte_div_bounds [OF assms(1)] and cb = byte_div_bounds [OF assms(2)]
  have 1: "((a mod 4) * 16 + b div 16) div 16 = a mod 4" by (rule pack_div [OF bb(2)])
  have 2: "((a mod 4) * 16 + b div 16) mod 16 = b div 16" by (rule pack_mod [OF bb(2)])
  have 3: "((b mod 16) * 4 + c div 64) div 4 = b mod 16" by (rule pack_div [OF cb(3)])
  have 4: "((b mod 16) * 4 + c div 64) mod 4 = c div 64" by (rule pack_mod [OF cb(3)])
  show "(a div 4) * 4 + ((a mod 4) * 16 + b div 16) div 16 = a" unfolding 1 by simp
  show "(((a mod 4) * 16 + b div 16) mod 16) * 16 + ((b mod 16) * 4 + c div 64) div 4 = b"
    unfolding 2 3 by simp
  show "(((b mod 16) * 4 + c div 64) mod 4) * 64 + c mod 64 = c" unfolding 4 by simp
  show "(a div 4) * 4 + ((a mod 4) * 16) div 16 = a" by simp
  show "(((a mod 4) * 16 + b div 16) mod 16) * 16 + ((b mod 16) * 4) div 4 = b"
    unfolding 2 by simp
qed


lemma sextets_bound: "\<forall>b\<in>set bs. b < 256 \<Longrightarrow> \<forall>x\<in>set (sextets bs). x < 64"
proof (induction bs rule: sextets.induct)
  case (1 a b c rest)
  then have "a < 256" "b < 256" "c < 256" "\<forall>b\<in>set rest. b < 256" by simp_all
  with 1 sextet_bounds [of a b c] show ?case by simp
next
  case (2 a b)
  then have "a < 256" "b < 256" by simp_all
  with sextet_bounds [of a b b] show ?case by simp
next
  case (3 a)
  then have "a < 256" by simp
  with sextet_bounds [of a a a] show ?case by simp
next
  case 4
  show ?case by simp
qed

lemma bytes_of_sextets_sextets: "\<forall>b\<in>set bs. b < 256 \<Longrightarrow> bytes_of_sextets (sextets bs) = bs"
proof (induction bs rule: sextets.induct)
  case (1 a b c rest)
  then have b: "b < 256" and c: "c < 256" and r: "\<forall>b\<in>set rest. b < 256" by simp_all
  from 1 r sextet_unpack [OF b c] show ?case by simp
next
  case (2 a b)
  then have b: "b < 256" by simp
  from sextet_unpack [OF b b] show ?case by simp
next
  case (3 a)
  have "(a div 4) * 4 + ((a mod 4) * 16) div 16 = a" by simp
  then show ?case by simp
next
  case 4
  show ?case by simp
qed

lemma length_sextets_not_1: "length (sextets bs) mod 4 \<noteq> 1"
proof (induction bs rule: sextets.induct)
  case (1 a b c rest)
  have "length (sextets (a # b # c # rest)) = length (sextets rest) + 4" by simp
  then have "length (sextets (a # b # c # rest)) mod 4 = length (sextets rest) mod 4"
    by (simp only: mod_add_self2)
  then show ?case using 1 by (simp only: not_False_eq_True)
qed simp_all

lemma length_sextets_padded: "(length (sextets bs) + (3 - length bs mod 3) mod 3) mod 4 = 0"
proof (induction bs rule: sextets.induct)
  case (1 a b c rest)
  have l: "length (sextets (a # b # c # rest)) = 4 + length (sextets rest)" by simp
  have m: "length (a # b # c # rest) mod 3 = length rest mod 3"
  proof -
    have "length (a # b # c # rest) = length rest + 3" by simp
    then show ?thesis by (simp only: mod_add_self2)
  qed
  have "(4 + length (sextets rest) + (3 - length rest mod 3) mod 3) mod 4
      = (length (sextets rest) + (3 - length rest mod 3) mod 3) mod 4"
    by (simp only: add.assoc mod_add_self1)
  with 1 show ?case unfolding l m by simp
qed simp_all

lemma sextets_eq_Nil: "sextets bs = [] \<longleftrightarrow> bs = []"
  by (cases bs rule: sextets.cases) simp_all

lemma unat_of_nat_small: "n < 65536 \<Longrightarrow> unat (of_nat n :: 16 word) = n"
  by (simp add: unat_of_nat)

lemma b64val_b64char:
  assumes "i < 64"
  shows "b64val (b64char i) = Some i"
proof -
  consider "i < 26" | "26 \<le> i" "i < 52" | "52 \<le> i" "i < 62" | "i = 62" | "i = 63"
    using assms by linarith
  then show ?thesis
  proof cases
    case 1
    then have "unat (b64char i) = 65 + i"
      by (simp add: b64char_def unat_of_nat_small del: of_nat_add of_nat_diff)
    with 1 show ?thesis by (auto simp: b64val_def Let_def)
  next
    case 2
    then have "unat (b64char i) = 97 + (i - 26)"
      by (simp add: b64char_def unat_of_nat_small del: of_nat_add of_nat_diff)
    with 2 show ?thesis by (auto simp: b64val_def Let_def)
  next
    case 3
    then have "unat (b64char i) = 48 + (i - 52)"
      by (simp add: b64char_def unat_of_nat_small del: of_nat_add of_nat_diff)
    with 3 show ?thesis by (auto simp: b64val_def Let_def)
  next
    case 4
    then show ?thesis by (simp add: b64char_def b64val_def)
  next
    case 5
    then show ?thesis by (simp add: b64char_def b64val_def)
  qed
qed

lemma b64val_pad: "b64val pad_char = None"
  by (simp add: b64val_def pad_char_def)

lemma b64val_colon: "b64val 58 = None"
  by (simp add: b64val_def)

lemma b64val_whitespace: "is_ascii_whitespace c \<Longrightarrow> b64val c = None"
  unfolding is_ascii_whitespace_def by (elim disjE) (simp_all add: b64val_def)

text \<open>The characters that \<open>btoa\<close> writes before the padding.\<close>

lemma body_chars:
  assumes "\<forall>x\<in>set xs. x < 64" "c \<in> set (map b64char xs)"
  shows "b64val c \<noteq> None"
  using assms b64val_b64char by auto

lemma map_b64val_body:
  "\<forall>x\<in>set xs. x < 64 \<Longrightarrow> map (\<lambda>c. the (b64val c)) (map b64char xs) = xs"
  by (induction xs) (simp_all add: b64val_b64char)

lemma strip_padding_padded:
  assumes "length (xs @ replicate n pad_char) mod 4 = 0" "n \<le> 2" "\<forall>c\<in>set xs. c \<noteq> pad_char"
  shows "strip_padding (xs @ replicate n pad_char) = xs"
proof -
  have lastxs: "xs \<noteq> [] \<Longrightarrow> last xs \<noteq> pad_char"
    using assms(3) last_in_set by blast
  consider "n = 0" | "n = 1" | "n = 2" using assms(2) by linarith
  then show ?thesis
  proof cases
    case 1
    have "\<not> (xs \<noteq> [] \<and> last xs = pad_char)" using lastxs by blast
    with 1 show ?thesis
      by (auto simp: strip_padding_def)
  next
    case 2
    then have r: "xs @ replicate n pad_char = xs @ [pad_char]" by simp
    have l: "Suc (length xs) mod 4 = 0" using assms(1) r by simp
    then have ne: "xs \<noteq> []" by auto
    with lastxs have nl: "last xs \<noteq> pad_char" by simp
    from l ne nl show ?thesis unfolding r strip_padding_def by simp
  next
    case 3
    then have r: "xs @ replicate n pad_char = (xs @ [pad_char]) @ [pad_char]"
      by (simp add: numeral_2_eq_2)
    have "butlast ((xs @ [pad_char]) @ [pad_char]) = xs @ [pad_char]"
      "last ((xs @ [pad_char]) @ [pad_char]) = pad_char"
      by (simp_all only: butlast_snoc last_snoc)
    moreover have "butlast (xs @ [pad_char]) = xs" "last (xs @ [pad_char]) = pad_char"
      by simp_all
    moreover have "2 \<le> length ((xs @ [pad_char]) @ [pad_char])" by simp
    moreover have "length ((xs @ [pad_char]) @ [pad_char]) mod 4 = 0" using assms(1) r by simp
    ultimately show ?thesis unfolding r strip_padding_def by (simp only: if_True simp_thms)
  qed
qed

lemma latin1_unat: "(c :: 16 word) \<le> 255 \<longleftrightarrow> unat c < 256"
  by (simp add: word_le_nat_alt less_Suc_eq_le [symmetric])

lemma padding_le_2: "padding n = replicate ((3 - n mod 3) mod 3) pad_char \<and> (3 - n mod 3) mod 3 \<le> 2"
  by (simp add: padding_def)

lemma pad_not_whitespace: "\<not> is_ascii_whitespace pad_char"
  by (simp add: is_ascii_whitespace_def pad_char_def)

lemma btoa_latin1:
  assumes "\<forall>c\<in>set s. c \<le> 255"
  shows "btoa s = Inr (map b64char (sextets (map unat s)) @ padding (length s))"
  using assms by (auto simp: btoa_def list_ex_iff)

lemma btoa_Inr_latin1: "btoa s = Inr e \<Longrightarrow> \<forall>c\<in>set s. c \<le> 255"
  by (auto simp: btoa_def list_ex_iff split: if_splits)

lemma atob_encoded:
  assumes "\<forall>c\<in>set s. c \<le> 255"
  shows "atob (map b64char (sextets (map unat s)) @ padding (length s)) = Inr s"
proof -
  let ?bs = "map unat s"
  let ?body = "map b64char (sextets ?bs)"
  let ?k = "(3 - length s mod 3) mod 3"
  have bytes: "\<forall>b\<in>set ?bs. b < 256"
    using assms by (simp add: latin1_unat)
  have six: "\<forall>x\<in>set (sextets ?bs). x < 64"
    by (rule sextets_bound [OF bytes])
  have valid: "\<forall>c\<in>set ?body. b64val c \<noteq> None"
    using body_chars [OF six] by blast
  have nows: "\<forall>c\<in>set ?body. \<not> is_ascii_whitespace c"
    using valid b64val_whitespace by blast
  have nopad: "\<forall>c\<in>set ?body. c \<noteq> pad_char"
    using valid b64val_pad by blast
  have pad: "padding (length s) = replicate ?k pad_char" and k: "?k \<le> 2"
    using padding_le_2 [of "length s"] by simp_all
  have filt: "filter (\<lambda>c. \<not> is_ascii_whitespace c) (?body @ replicate ?k pad_char)
      = ?body @ replicate ?k pad_char"
    using nows pad_not_whitespace by (simp add: filter_id_conv)
  have len: "length (?body @ replicate ?k pad_char) mod 4 = 0"
    using length_sextets_padded [of ?bs] by simp
  have strip: "strip_padding (?body @ replicate ?k pad_char) = ?body"
    by (rule strip_padding_padded [OF len k nopad])
  have not1: "length ?body mod 4 \<noteq> 1"
    using length_sextets_not_1 [of ?bs] by simp
  have ok: "\<not> list_ex (\<lambda>c. b64val c = None) ?body"
    using valid by (simp add: list_ex_iff)
  have dec: "map of_nat (bytes_of_sextets (map (\<lambda>c. the (b64val c)) ?body)) = s"
    by (simp only: map_b64val_body [OF six] bytes_of_sextets_sextets [OF bytes])
      (simp add: map_idI)
  show ?thesis
    unfolding atob_def pad filt strip Let_def using not1 ok dec by simp
qed

lemma atob_btoa: "btoa s = Inr e \<Longrightarrow> atob e = Inr s"
  using atob_encoded [OF btoa_Inr_latin1] btoa_latin1 [OF btoa_Inr_latin1] by fastforce

lemma btoa_inj:
  assumes "btoa s = Inr e" "btoa t = Inr e"
  shows "s = t"
proof -
  have "atob e = Inr s" by (rule atob_btoa [OF assms(1)])
  moreover have "atob e = Inr t" by (rule atob_btoa [OF assms(2)])
  ultimately show ?thesis by simp
qed

lemma btoa_no_colon: "btoa s = Inr e \<Longrightarrow> 58 \<notin> set e"
proof -
  assume e: "btoa s = Inr e"
  have l: "\<forall>c\<in>set s. c \<le> 255" by (rule btoa_Inr_latin1 [OF e])
  have "\<forall>b\<in>set (map unat s). b < 256" using l by (simp add: latin1_unat)
  then have "\<forall>c\<in>set (map b64char (sextets (map unat s))). b64val c \<noteq> None"
    using body_chars [OF sextets_bound] by blast
  then have "58 \<notin> set (map b64char (sextets (map unat s)))"
    using b64val_colon by blast
  moreover have "58 \<notin> set (padding (length s))"
    by (simp add: padding_def pad_char_def)
  ultimately show ?thesis
    using e btoa_latin1 [OF l] by auto
qed

lemma btoa_eq_Nil: "btoa s = Inr [] \<longleftrightarrow> s = []"
proof
  assume "btoa s = Inr []"
  then have "atob [] = Inr s" by (rule atob_btoa)
  then show "s = []" by (simp add: atob_def strip_padding_def)
next
  assume "s = []"
  then show "btoa s = Inr []" by (simp add: btoa_def padding_def)
qed

section \<open>Cache keys: results\<close>

lemma split_at_last:
  assumes "c \<notin> set b1" "c \<notin> set b2" "a1 @ c # b1 = a2 @ c # b2"
  shows "a1 = a2 \<and> b1 = b2"
  using assms
proof (induction a1 arbitrary: a2)
  case Nil
  then show ?case by (cases a2) auto
next
  case (Cons x a1)
  show ?case
  proof (cases a2)
    case Nil
    with Cons.prems show ?thesis by auto
  next
    case (Cons y a2')
    with Cons.prems Cons.IH [of a2'] show ?thesis by auto
  qed
qed

lemma str_colon: "str '':'' = [58]"
  by (simp add: str_def)

lemma generateCacheKey_Inr:
  "generateCacheKey S config uid = Inr k \<longleftrightarrow>
     (\<exists>b. btoa (S config) = Inr b \<and> k = str ''access-control:'' @ userStringOf uid @ 58 # b)"
  by (cases "btoa (S config)") (auto simp: generateCacheKey_def Let_def str_colon)

lemma replicate_two: "replicate 2 x = [x, x]"
  by (simp add: numeral_2_eq_2)

lemma key_empty_anonymous:
  "generateCacheKey stringify_feature_only no_checks None = Inr (str ''access-control:anonymous:e30='')"
  by (simp add: generateCacheKey_def userStringOf_def stringify_feature_only_def no_checks_def
      truthy_def btoa_def padding_def b64char_def pad_char_def str_def)

lemma key_feature_anonymous:
  "generateCacheKey stringify_feature_only (no_checks\<lparr> feature := Some (str ''f1'') \<rparr>) None
     = Inr (str ''access-control:anonymous:eyJmZWF0dXJlIjoiZjEifQ=='')"
  by (simp add: generateCacheKey_def userStringOf_def stringify_feature_only_def no_checks_def
      json_quote_plain_def truthy_def btoa_def padding_def b64char_def pad_char_def str_def
      replicate_two)

lemma key_empty_u1:
  "generateCacheKey stringify_feature_only no_checks (Some (str ''u1''))
     = Inr (str ''access-control:u1:e30='')"
  by (simp add: generateCacheKey_def userStringOf_def stringify_feature_only_def no_checks_def
      truthy_def btoa_def padding_def b64char_def pad_char_def str_def)

text \<open>
  C6, as stated: two calls that differ in the user identifier, a present identifier against
  the anonymous case included, produce different keys. The user whose identifier is the string
  \<open>anonymous\<close> and the absent user get the same key for the config \<open>{}\<close>: the sentinel of
  \<open>userId || 'anonymous'\<close> is a possible identifier.
\<close>

theorem cache_key_collision_counterexample:
  "Some (str ''anonymous'') \<noteq> (None :: jsstring option)
   \<and> generateCacheKey stringify_feature_only no_checks (Some (str ''anonymous''))
       = Inr (str ''access-control:anonymous:e30='')
   \<and> generateCacheKey stringify_feature_only no_checks None
       = Inr (str ''access-control:anonymous:e30='')"
  by (simp add: generateCacheKey_def userStringOf_def stringify_feature_only_def no_checks_def
      truthy_def btoa_def padding_def b64char_def pad_char_def str_def)

text \<open>
  C6, amended. The key is a function of the JSON text of the config and of the user string,
  which is the identifier, or \<open>anonymous\<close> when the identifier is absent or empty: whenever
  two calls return a key (the JSON text has no code unit above \<open>0xFF\<close>, so that \<open>btoa\<close> does
  not throw), the keys are equal exactly when the JSON texts are equal and the user strings
  are equal.
\<close>

theorem cache_key_injective:
  assumes "generateCacheKey S c1 u1 = Inr k1" "generateCacheKey S c2 u2 = Inr k2"
  shows "k1 = k2 \<longleftrightarrow> (S c1 = S c2 \<and> userStringOf u1 = userStringOf u2)"
proof -
  obtain b1 where b1: "btoa (S c1) = Inr b1"
    "k1 = str ''access-control:'' @ userStringOf u1 @ 58 # b1"
    using assms(1) unfolding generateCacheKey_Inr by blast
  obtain b2 where b2: "btoa (S c2) = Inr b2"
    "k2 = str ''access-control:'' @ userStringOf u2 @ 58 # b2"
    using assms(2) unfolding generateCacheKey_Inr by blast
  show ?thesis
  proof
    assume "k1 = k2"
    then have "userStringOf u1 @ 58 # b1 = userStringOf u2 @ 58 # b2"
      unfolding b1(2) b2(2) by (simp only: same_append_eq)
    with btoa_no_colon [OF b1(1)] btoa_no_colon [OF b2(1)]
    have "userStringOf u1 = userStringOf u2 \<and> b1 = b2" by (rule split_at_last)
    moreover from this b1(1) b2(1) have "S c1 = S c2"
      using btoa_inj [of "S c1" b1 "S c2"] by simp
    ultimately show "S c1 = S c2 \<and> userStringOf u1 = userStringOf u2" by simp
  next
    assume "S c1 = S c2 \<and> userStringOf u1 = userStringOf u2"
    with b1 b2 show "k1 = k2" by simp
  qed
qed

theorem cache_key_injective_witness:
  "str ''access-control:anonymous:e30='' \<noteq> str ''access-control:anonymous:eyJmZWF0dXJlIjoiZjEifQ==''
   \<and> str ''access-control:anonymous:e30='' \<noteq> str ''access-control:u1:e30=''
   \<and> stringify_feature_only no_checks
       \<noteq> stringify_feature_only (no_checks\<lparr> feature := Some (str ''f1'') \<rparr>)
   \<and> userStringOf None \<noteq> userStringOf (Some (str ''u1''))"
proof -
  have "stringify_feature_only no_checks
       \<noteq> stringify_feature_only (no_checks\<lparr> feature := Some (str ''f1'') \<rparr>)"
    by (simp add: stringify_feature_only_def no_checks_def str_def)
  moreover have "userStringOf None \<noteq> userStringOf (Some (str ''u1''))"
    by (simp add: userStringOf_def truthy_def str_def)
  ultimately show ?thesis
    using cache_key_injective [OF key_empty_anonymous key_feature_anonymous]
      cache_key_injective [OF key_empty_anonymous key_empty_u1]
    by blast
qed


section \<open>Storage adapters: results\<close>

lemmas base64_defs =
  btoa_def atob_def padding_def b64char_def b64val_def pad_char_def strip_padding_def
  is_ascii_whitespace_def

lemmas storage_defs =
  EncryptedStorageAdapter_def LocalStorageAdapter_def MockStorageAdapter_def browserStorage_def
  set_then_get_def getKey_def encrypt_def decrypt_def xorWithKey_def keyCodeAt_def truthy_def


lemma xor_latin1:
  fixes a b :: "16 word"
  assumes "a \<le> 255" "b \<le> 255"
  shows "a XOR b \<le> 255"
proof -
  have a: "uint a < 2 ^ 8" and b: "uint b < 2 ^ 8"
    using assms by (simp_all add: word_le_def)
  have "uint a XOR uint b < 2 ^ 8"
    by (rule XOR_upper) (use a b in simp_all)
  then have "uint (a XOR b) < 2 ^ 8"
    by (simp add: unsigned_xor_eq)
  then show ?thesis by (simp add: word_le_def)
qed

lemma keyCodeAt_latin1: "\<forall>c\<in>set secretKey. c \<le> 255 \<Longrightarrow> keyCodeAt secretKey i \<le> 255"
  by (simp add: keyCodeAt_def)

lemma length_xorWithKey: "length (xorWithKey secretKey text) = length text"
  by (simp add: xorWithKey_def)

lemma nth_xorWithKey:
  "i < length text \<Longrightarrow> xorWithKey secretKey text ! i = (text ! i) XOR keyCodeAt secretKey i"
  by (simp add: xorWithKey_def)

lemma xorWithKey_twice: "xorWithKey secretKey (xorWithKey secretKey text) = text"
  by (rule nth_equalityI) (simp_all add: length_xorWithKey nth_xorWithKey xor.assoc)

lemma xorWithKey_latin1:
  assumes "\<forall>c\<in>set text. c \<le> 255" "\<forall>c\<in>set secretKey. c \<le> 255"
  shows "\<forall>c\<in>set (xorWithKey secretKey text). c \<le> 255"
proof
  fix c assume "c \<in> set (xorWithKey secretKey text)"
  then obtain i where i: "i < length text" "c = (text ! i) XOR keyCodeAt secretKey i"
    by (auto simp: xorWithKey_def)
  with assms(1) have "text ! i \<le> 255" by simp
  with i(2) keyCodeAt_latin1 [OF assms(2)] show "c \<le> 255"
    by (simp add: xor_latin1)
qed

lemma xorWithKey_eq_Nil: "xorWithKey secretKey text = [] \<longleftrightarrow> text = []"
  by (simp add: xorWithKey_def)

lemma decrypt_encrypt: "encrypt secretKey v = Inr e \<Longrightarrow> decrypt secretKey e = Inr v"
  by (simp add: encrypt_def decrypt_def atob_btoa xorWithKey_twice)

lemma encrypt_latin1:
  "\<forall>c\<in>set (xorWithKey secretKey v). c \<le> 255 \<Longrightarrow> \<exists>e. encrypt secretKey v = Inr e"
  by (simp add: encrypt_def btoa_latin1)

lemma encrypt_nonempty: "encrypt secretKey v = Inr e \<Longrightarrow> v \<noteq> [] \<Longrightarrow> e \<noteq> []"
  using btoa_eq_Nil [of "xorWithKey secretKey v"] by (auto simp: encrypt_def xorWithKey_eq_Nil)

lemma decrypt_never_throws: "\<exists>v. decrypt secretKey e = Inr v"
  by (simp add: decrypt_def split: sum.split)

lemma stores_faithfully_local: "stores_faithfully (LocalStorageAdapter prefix browserStorage)"
  by (simp add: stores_faithfully_def LocalStorageAdapter_def browserStorage_def)

lemma stores_faithfully_mock: "stores_faithfully MockStorageAdapter"
  by (simp add: stores_faithfully_def MockStorageAdapter_def truthy_def)

lemma LocalStorageAdapter_silent:
  "getItem (LocalStorageAdapter prefix localStorage) key s \<noteq> Inl e"
  "setItem (LocalStorageAdapter prefix localStorage) key v s \<noteq> Inl e"
  "removeItem (LocalStorageAdapter prefix localStorage) key s \<noteq> Inl e"
  by (simp_all add: LocalStorageAdapter_def split: sum.split)

lemma encrypted_propagates_base_failure:
  "getItem baseAdapter key s = Inl e
     \<Longrightarrow> getItem (EncryptedStorageAdapter baseAdapter secretKey) key s = Inl e"
  "removeItem baseAdapter key s = Inl e
     \<Longrightarrow> removeItem (EncryptedStorageAdapter baseAdapter secretKey) key s = Inl e"
  by (simp_all add: EncryptedStorageAdapter_def)

text \<open>
  C7, as stated: \<open>setItem(k, v)\<close> then \<open>getItem(k)\<close> returns \<open>v\<close> for every string \<open>v\<close>. For
  the empty string the stored text is empty and \<open>if (!encryptedValue) return null\<close> answers
  \<open>null\<close>; for the one-character string U+20AC the XOR with the key leaves a code unit above
  \<open>0xFF\<close> and \<open>btoa\<close> throws in \<open>setItem\<close>.
\<close>

theorem encrypted_round_trip_counterexample:
  "set_then_get
     (EncryptedStorageAdapter (LocalStorageAdapter (str ''access-control'') browserStorage) (str ''key''))
     (str ''k'') [] Map.empty = Inr None
   \<and> set_then_get
     (EncryptedStorageAdapter (LocalStorageAdapter (str ''access-control'') browserStorage) (str ''key''))
     (str ''k'') [8364] Map.empty = Inl InvalidCharacterError"
  by (simp add: storage_defs btoa_def padding_def str_def)

text \<open>
  C7, amended. For every key \<open>k\<close> and every non-empty string \<open>v\<close> whose code units, each
  XOR-ed with its unit of the secret key, are at most \<open>0xFF\<close> (as they are when \<open>v\<close> and the
  secret key are Latin-1 strings, lemma \<open>xorWithKey_latin1\<close>): \<open>setItem(k, v)\<close> over a working
  base adapter followed by \<open>getItem(k)\<close> returns \<open>v\<close> exactly.
\<close>

theorem encrypted_round_trip:
  assumes "stores_faithfully baseAdapter"
    and "v \<noteq> []"
    and "\<forall>c\<in>set (xorWithKey secretKey v). c \<le> 255"
  shows "set_then_get (EncryptedStorageAdapter baseAdapter secretKey) key v s = Inr (Some v)"
proof -
  obtain e where e: "encrypt secretKey v = Inr e"
    using encrypt_latin1 [OF assms(3)] by blast
  have ne: "e \<noteq> []" by (rule encrypt_nonempty [OF e assms(2)])
  obtain s' where s': "setItem baseAdapter key e s = Inr s'"
    "getItem baseAdapter key s' = Inr (Some e)"
    using assms(1) ne unfolding stores_faithfully_def by blast
  have "setItem (EncryptedStorageAdapter baseAdapter secretKey) key v s = Inr s'"
    using e s'(1) by (simp add: EncryptedStorageAdapter_def)
  moreover have "getItem (EncryptedStorageAdapter baseAdapter secretKey) key s' = Inr (Some v)"
    using s'(2) ne decrypt_encrypt [OF e] by (simp add: EncryptedStorageAdapter_def truthy_def)
  ultimately show ?thesis by (simp add: set_then_get_def)
qed

theorem encrypted_round_trip_witness:
  "set_then_get
     (EncryptedStorageAdapter (LocalStorageAdapter (str ''access-control'') browserStorage) (str ''key''))
     (str ''k'') (str ''secret'') Map.empty = Inr (Some (str ''secret''))"
proof -
  have "\<forall>c\<in>set (xorWithKey (str ''key'') (str ''secret'')). c \<le> 255"
    by (rule xorWithKey_latin1) (simp_all add: str_def)
  moreover have "str ''secret'' \<noteq> []" by (simp add: str_def)
  ultimately show ?thesis
    using encrypted_round_trip [OF stores_faithfully_local] by blast
qed


text \<open>
  C8. What \<open>getItem\<close> of the obfuscating adapter returns for a stored text that the encoder
  never writes. For \<open>%%%\<close>, which is not base64, \<open>atob\<close> throws, \<open>decrypt\<close> catches and
  returns the empty string, and \<open>getItem\<close> returns that string, not \<open>null\<close>: its own
  \<open>catch\<close> is never reached. For \<open>YQ\<close>, base64 without its padding (the encoder writes
  \<open>YQ==\<close>), \<open>getItem\<close> returns the decoded character.
\<close>

theorem malformed_store_read:
  "getItem
     (EncryptedStorageAdapter (LocalStorageAdapter (str ''access-control'') browserStorage) (str ''key''))
     (str ''k'') [str ''access-control:k'' \<mapsto> str ''%%%''] = Inr (Some [])
   \<and> getItem
     (EncryptedStorageAdapter (LocalStorageAdapter (str ''access-control'') browserStorage) (str ''key''))
     (str ''k'') [str ''access-control:k'' \<mapsto> str ''YQ''] = Inr (Some [10])"
  by (simp add: storage_defs base64_defs str_def)

text \<open>
  C9. \<open>setItem\<close> of the obfuscating adapter over a working \<open>LocalStorageAdapter\<close>, with the
  one-character value U+20AC: \<open>btoa\<close> throws in \<open>encrypt\<close>, nothing catches, and the error
  reaches the caller. (\<open>LocalStorageAdapter\<close> itself never lets an error through, lemma
  \<open>LocalStorageAdapter_silent\<close>.)
\<close>

theorem encrypted_setItem_throws:
  "setItem
     (EncryptedStorageAdapter (LocalStorageAdapter (str ''access-control'') browserStorage) (str ''key''))
     (str ''k'') [8364] Map.empty = Inl InvalidCharacterError"
  by (simp add: storage_defs btoa_def str_def)

end
